theory Spec2Isabelle
  imports Main "HOL-Library.Word"
begin

section \<open>Strings, card elements and the persisted state\<close>

text \<open>
  A JavaScript string is a sequence of 16-bit code units; \<open>charCodeAt\<close> reads one of
  them. \<open>js\<close> embeds an ASCII literal.
\<close>

type_synonym jsstring = "16 word list"

definition js :: "string \<Rightarrow> jsstring" where
  "js s = map of_char s"

text \<open>
  What \<open>getFrameId\<close> reads of a card element: its \<open>id\<close> attribute (the empty string
  when the element has none), the \<open>href\<close> attribute of the link in its title slot
  (\<open>None\<close> when there is no such link or the link has no \<open>href\<close>), and the title's
  display text, which the function never looks at.
\<close>

record frame =
  el_id :: jsstring
  title_href :: "jsstring option"
  title_text :: jsstring

text \<open>
  \<open>interface DashboardState { order: string[]; hidden: string[]; spans?: Record<string, SpanValue> }\<close>.
  A stored span is whatever number the storage holds, so it is an \<open>int\<close> here and not
  yet one of the four options.
\<close>

record DashboardState =
  order :: "jsstring list"
  hidden :: "jsstring list"
  spans :: "(jsstring \<rightharpoonup> int) option"

section \<open>getFrameId\<close>

text \<open>
  One round of the loop body \<open>hash = ((hash << 5) - hash + href.charCodeAt(i)) | 0\<close>.
  \<open>hash\<close> is an int32; the shift wraps to 32 bits, the subtraction and the addition are
  exact on doubles and \<open>| 0\<close> reduces the sum modulo \<open>2^32\<close> again, which is the
  arithmetic of \<open>32 word\<close>.
\<close>

definition hash_step :: "32 word \<Rightarrow> 16 word \<Rightarrow> 32 word" where
  "hash_step hash c = push_bit 5 hash - hash + ucast c"

definition digit36 :: "nat \<Rightarrow> 16 word" where
  "digit36 d = js ''0123456789abcdefghijklmnopqrstuvwxyz'' ! d"

text \<open>\<open>Number.prototype.toString(36)\<close> on a non-negative integer.\<close>

fun toString36 :: "nat \<Rightarrow> jsstring" where
  "toString36 n =
     (if n < 36 then [digit36 n] else toString36 (n div 36) @ [digit36 (n mod 36)])"

declare toString36.simps [simp del]

definition getFrameId :: "'a frame_scheme \<Rightarrow> jsstring" where
  "getFrameId frame =
     (if el_id frame \<noteq> [] then el_id frame
      else let href = (case title_href frame of None \<Rightarrow> [] | Some h \<Rightarrow> h);
               hash = foldl hash_step 0 href
           in js ''bu-'' @ toString36 (nat \<bar>sint hash\<bar>))"

text \<open>
  The hash the loop is meant to compute, on unbounded integers: the polynomial in 31 of
  the code units, first unit at the highest power.
\<close>

definition poly31 :: "jsstring \<Rightarrow> nat" where
  "poly31 href = foldl (\<lambda>a c. 31 * a + unat c) 0 href"

section \<open>Column spans\<close>

text \<open>\<open>const SPAN_OPTIONS = [2, 3, 4, 6]\<close>: 2 = 1/3, 3 = 1/2, 4 = 2/3, 6 = full row.\<close>

definition SPAN_OPTIONS :: "int list" where
  "SPAN_OPTIONS = [2, 3, 4, 6]"

text \<open>
  \<open>const spans = state?.spans ?? {}\<close>. The map holds the own keys of the object.
  \<open>spans[id]\<close> under a name the object does not own is undefined or something inherited
  from \<open>Object.prototype\<close> (a function or, under \<open>__proto__\<close>, an object), and none of
  these is a span option: \<open>None\<close> stands for all of them.
\<close>

definition stored_spans :: "DashboardState option \<Rightarrow> (jsstring \<rightharpoonup> int)" where
  "stored_spans state =
     (case state of None \<Rightarrow> Map.empty
      | Some s \<Rightarrow> (case spans s of None \<Rightarrow> Map.empty | Some m \<Rightarrow> m))"

text \<open>
  \<open>getSpan\<close> closes over \<open>spans\<close>; the closure's variable is the first argument.
  \<open>s && SPAN_OPTIONS.includes(s)\<close> fails for a missing entry and for the number 0.
\<close>

definition getSpan :: "(jsstring \<rightharpoonup> int) \<Rightarrow> jsstring \<Rightarrow> int" where
  "getSpan spans_obj ident =
     (case spans_obj ident of
        Some s \<Rightarrow>
          if s \<noteq> 0 \<and> s \<in> set SPAN_OPTIONS then s
          else if ident = js ''bu-stats-frame'' then 6 else 3
      | None \<Rightarrow> if ident = js ''bu-stats-frame'' then 6 else 3)"

section \<open>The card registry\<close>

text \<open>
  DOM elements are objects with identity: two cards may agree on every attribute and
  still be two nodes. A node is an address, and the store maps it to the element's
  attributes. Besides what the host page gives an element, the engine keeps three things
  on it: the classes \<open>bu-hidden-card\<close> and \<open>bu-dragging\<close> and \<open>dataset.buSpan\<close>
  (\<open>applySpan\<close> writes \<open>String(span)\<close>, \<open>getSpans\<close> reads it back with \<open>parseInt\<close>;
  the number itself is kept here).
\<close>

type_synonym node = nat

record element = frame +
  hidden_card :: bool
  dragging :: bool
  buSpan :: "int option"

text \<open>The three variables of the loop \<open>for (const frame of frames)\<close>.\<close>

record registry =
  reg_store :: "node \<Rightarrow> element"
  idToFrame :: "jsstring \<rightharpoonup> node"
  defaultOrder :: "jsstring list"

text \<open>
  \<open>const id = getFrameId(frame); if (!frame.id) frame.id = id;
  idToFrame.set(id, frame); defaultOrder.push(id);\<close>
\<close>

fun assign_ids :: "node list \<Rightarrow> registry \<Rightarrow> registry" where
  "assign_ids [] r = r"
| "assign_ids (frame # frames) r =
     (let el = reg_store r frame;
          ident = getFrameId el;
          st = (if el_id el = [] then (reg_store r)(frame := el\<lparr>el_id := ident\<rparr>)
                else reg_store r)
      in assign_ids frames
           \<lparr>reg_store = st,
            idToFrame = (idToFrame r)(ident \<mapsto> frame),
            defaultOrder = defaultOrder r @ [ident]\<rparr>)"

definition discover :: "(node \<Rightarrow> element) \<Rightarrow> node list \<Rightarrow> registry" where
  "discover st frames =
     assign_ids frames \<lparr>reg_store = st, idToFrame = Map.empty, defaultOrder = []\<rparr>"

section \<open>Merging the stored state with the discovered cards\<close>

text \<open>\<open>state?.order?.filter((id) => idToFrame.has(id)) ?? defaultOrder\<close>\<close>

definition stored_order :: "registry \<Rightarrow> DashboardState option \<Rightarrow> jsstring list" where
  "stored_order reg state =
     (case state of
        None \<Rightarrow> defaultOrder reg
      | Some s \<Rightarrow> filter (\<lambda>ident. idToFrame reg ident \<noteq> None) (order s))"

text \<open>
  \<open>for (const id of defaultOrder) { if (!order.includes(id)) order.unshift(id); }\<close>.
  With no stored state \<open>order\<close> is the array \<open>defaultOrder\<close> itself; every id the loop
  meets is then included, nothing is unshifted, and the array the loop walks stays as
  it was.
\<close>

fun add_new_ids :: "jsstring list \<Rightarrow> jsstring list \<Rightarrow> jsstring list" where
  "add_new_ids [] ord = ord"
| "add_new_ids (ident # ids) ord =
     add_new_ids ids (if ident \<in> set ord then ord else ident # ord)"

definition dashboard_order :: "registry \<Rightarrow> DashboardState option \<Rightarrow> jsstring list" where
  "dashboard_order reg state = add_new_ids (defaultOrder reg) (stored_order reg state)"

text \<open>\<open>const hiddenSet = new Set(state?.hidden ?? [])\<close>\<close>

definition hiddenSet :: "DashboardState option \<Rightarrow> jsstring set" where
  "hiddenSet state = (case state of None \<Rightarrow> {} | Some s \<Rightarrow> set (hidden s))"

definition visibleOrder :: "registry \<Rightarrow> DashboardState option \<Rightarrow> jsstring list" where
  "visibleOrder reg state =
     filter (\<lambda>ident. ident \<notin> hiddenSet state) (dashboard_order reg state)"

definition hiddenOrder :: "registry \<Rightarrow> DashboardState option \<Rightarrow> jsstring list" where
  "hiddenOrder reg state =
     filter (\<lambda>ident. ident \<in> hiddenSet state) (dashboard_order reg state)"

section \<open>The grid and the dashboard session\<close>

text \<open>
  The wrapper's children are cards and the divider. What \<open>setupDashboard\<close> leaves behind
  for its event handlers: the elements, the wrapper's child list, the class
  \<open>bu-edit-mode\<close> of the dashboard, and the variable \<open>dragged\<close>.
\<close>

datatype child = Card node | Divider

record session =
  store :: "node \<Rightarrow> element"
  wrapper :: "child list"
  edit_mode :: bool
  dragged :: "node option"

text \<open>\<open>appendChild\<close> moves a node that is already a child to the end.\<close>

definition appendChild :: "child list \<Rightarrow> child \<Rightarrow> child list" where
  "appendChild w c = removeAll c w @ [c]"

definition applySpan :: "int \<Rightarrow> element \<Rightarrow> element" where
  "applySpan span el = el\<lparr>buSpan := Some span\<rparr>"

text \<open>
  \<open>for (const id of visibleOrder) { const frame = idToFrame.get(id); if (!frame) continue;
  applySpan(frame, getSpan(id)); wrapper.appendChild(frame); }\<close>
\<close>

fun place_visible ::
  "(jsstring \<rightharpoonup> node) \<Rightarrow> (jsstring \<rightharpoonup> int) \<Rightarrow> jsstring list \<Rightarrow> session \<Rightarrow> session" where
  "place_visible m sp [] s = s"
| "place_visible m sp (ident # ids) s =
     (case m ident of
        None \<Rightarrow> place_visible m sp ids s
      | Some frame \<Rightarrow>
          place_visible m sp ids
            (s\<lparr>store := (store s)(frame := applySpan (getSpan sp ident) (store s frame)),
               wrapper := appendChild (wrapper s) (Card frame)\<rparr>))"

text \<open>
  The same loop over \<open>hiddenOrder\<close>, with \<open>frame.classList.add("bu-hidden-card")\<close>
  before the span is applied.
\<close>

fun place_hidden ::
  "(jsstring \<rightharpoonup> node) \<Rightarrow> (jsstring \<rightharpoonup> int) \<Rightarrow> jsstring list \<Rightarrow> session \<Rightarrow> session" where
  "place_hidden m sp [] s = s"
| "place_hidden m sp (ident # ids) s =
     (case m ident of
        None \<Rightarrow> place_hidden m sp ids s
      | Some frame \<Rightarrow>
          place_hidden m sp ids
            (s\<lparr>store := (store s)(frame :=
                  applySpan (getSpan sp ident) ((store s frame)\<lparr>hidden_card := True\<rparr>)),
               wrapper := appendChild (wrapper s) (Card frame)\<rparr>))"

definition build_grid :: "registry \<Rightarrow> DashboardState option \<Rightarrow> session" where
  "build_grid reg state =
     (let sp = stored_spans state;
          s0 = \<lparr>store = reg_store reg, wrapper = [], edit_mode = False, dragged = None\<rparr>;
          s1 = place_visible (idToFrame reg) sp (visibleOrder reg state) s0
      in if hiddenOrder reg state \<noteq> []
         then place_hidden (idToFrame reg) sp (hiddenOrder reg state)
                (s1\<lparr>wrapper := appendChild (wrapper s1) Divider\<rparr>)
         else s1)"

section \<open>Persisting the layout\<close>

text \<open>\<open>wrapper.querySelectorAll(CARD_SEL)\<close>: the cards of the wrapper in document order.\<close>

fun cards_of :: "child list \<Rightarrow> node list" where
  "cards_of [] = []"
| "cards_of (Card f # w) = f # cards_of w"
| "cards_of (Divider # w) = cards_of w"

definition getCurrentOrder :: "session \<Rightarrow> jsstring list" where
  "getCurrentOrder s = map (\<lambda>f. getFrameId (store s f)) (cards_of (wrapper s))"

definition getHiddenIds :: "session \<Rightarrow> jsstring list" where
  "getHiddenIds s =
     map (\<lambda>f. getFrameId (store s f))
       (filter (\<lambda>f. hidden_card (store s f)) (cards_of (wrapper s)))"

text \<open>
  \<open>const n = span ? parseInt(span, 10) : 3;
  if (SPAN_OPTIONS.includes(n)) out[id] = n;\<close>.
  \<open>out\<close> is a plain object. For the id \<open>__proto__\<close> the assignment runs the setter that
  \<open>Object.prototype\<close> has under that name, and the setter ignores a number: no key is
  stored. Under every other name the assignment makes or overwrites an own key.
\<close>

definition getSpans :: "session \<Rightarrow> (jsstring \<rightharpoonup> int)" where
  "getSpans s =
     foldl (\<lambda>out f.
              let ident = getFrameId (store s f);
                  n = (case buSpan (store s f) of None \<Rightarrow> 3 | Some v \<Rightarrow> v)
              in if n \<in> set SPAN_OPTIONS \<and> ident \<noteq> js ''__proto__'' then out(ident \<mapsto> n)
                 else out)
       Map.empty (cards_of (wrapper s))"

definition snapshot :: "session \<Rightarrow> DashboardState" where
  "snapshot s = \<lparr>order = getCurrentOrder s, hidden = getHiddenIds s, spans = Some (getSpans s)\<rparr>"

text \<open>
  The module: \<open>dashboardEditState\<close> (null until \<open>setupDashboard\<close> has built the grid),
  \<open>_dashboardCache\<close>, and the calls of \<open>chrome.storage.local.set\<close> made so far.
  \<open>saveDashboardState\<close> sets the cache and makes the call inside \<open>try\<close>; the call is
  recorded whether or not the storage accepts it.
\<close>

record page =
  dashboardEditState :: "session option"
  dashboardCache :: "DashboardState option"
  storage_writes :: "DashboardState list"

definition saveDashboardState :: "DashboardState \<Rightarrow> page \<Rightarrow> page" where
  "saveDashboardState state p =
     p\<lparr>dashboardCache := Some state, storage_writes := storage_writes p @ [state]\<rparr>"

definition persistOrder :: "session \<Rightarrow> page \<Rightarrow> page" where
  "persistOrder s p = saveDashboardState (snapshot s) p"

section \<open>setupDashboard\<close>

definition statsPanel :: frame where
  "statsPanel =
     \<lparr>el_id = js ''bu-stats-frame'', title_href = None, title_text = js ''Statystyki ocen''\<rparr>"

definition slotPanel :: frame where
  "slotPanel =
     \<lparr>el_id = js ''bu-slot-frame'', title_href = None,
      title_text = [74, 101, 100, 110, 111, 114, 281, 107, 105, 32, 98, 97, 110, 100, 121, 116, 97]\<rparr>"

text \<open>An element as the page or \<open>createElement\<close> delivers it: none of the engine's marks.\<close>

definition unmarked :: "frame \<Rightarrow> element" where
  "unmarked f =
     \<lparr>el_id = el_id f, title_href = title_href f, title_text = title_text f,
      hidden_card = False, dragging = False, buSpan = None\<rparr>"

text \<open>The node of the \<open>n\<close>-th frame is \<open>n\<close>; no other address is ever followed.\<close>

definition page_store :: "frame list \<Rightarrow> node \<Rightarrow> element" where
  "page_store frames n =
     (if n < length frames then unmarked (frames ! n)
      else unmarked \<lparr>el_id = [], title_href = None, title_text = []\<rparr>)"

text \<open>
  \<open>setupDashboard\<close> from the frames onwards. It returns early when the dashboard has no
  \<open>usos-frame\<close>; otherwise \<open>frames = [statsPanel, slotPanel, ...usosFrames]\<close>,
  \<open>state = loadDashboardState()\<close>, the registry loop, the merge, the grid, and at the end
  \<open>dashboardEditState = { dashboard, persistOrder }\<close>.
\<close>

definition dashboard_registry :: "frame list \<Rightarrow> registry" where
  "dashboard_registry usosFrames =
     (let frames = statsPanel # slotPanel # usosFrames
      in discover (page_store frames) [0 ..< length frames])"

definition setupDashboard :: "frame list \<Rightarrow> page \<Rightarrow> page" where
  "setupDashboard usosFrames p =
     (if usosFrames = [] then p
      else p\<lparr>dashboardEditState :=
                Some (build_grid (dashboard_registry usosFrames) (dashboardCache p))\<rparr>)"

section \<open>Drag and drop\<close>

definition onDragStart :: "node \<Rightarrow> session \<Rightarrow> session" where
  "onDragStart c s =
     (if \<not> edit_mode s then s
      else s\<lparr>dragged := Some c,
             store := (store s)(c := (store s c)\<lparr>dragging := True\<rparr>)\<rparr>)"

definition onDragEnd :: "session \<Rightarrow> session" where
  "onDragEnd s =
     (case dragged s of
        None \<Rightarrow> s\<lparr>dragged := None\<rparr>
      | Some d \<Rightarrow> s\<lparr>store := (store s)(d := (store s d)\<lparr>dragging := False\<rparr>),
                    dragged := None\<rparr>)"

fun nextSibling :: "child list \<Rightarrow> child \<Rightarrow> child option" where
  "nextSibling [] c = None"
| "nextSibling [x] c = None"
| "nextSibling (x # y # w) c = (if x = c then Some y else nextSibling (y # w) c)"

fun insert_at :: "child list \<Rightarrow> child \<Rightarrow> child \<Rightarrow> child list" where
  "insert_at [] c r = [c]"
| "insert_at (x # w) c r = (if x = r then c # x # w else x # insert_at w c r)"

text \<open>
  \<open>parent.insertBefore(node, ref)\<close>: with \<open>ref\<close> null the node is appended; a \<open>ref\<close> that
  is not a child raises NotFoundError before anything moves (\<open>None\<close>); a \<open>ref\<close> that is the
  node itself stands for the node's next sibling.
\<close>

definition insertBefore :: "child list \<Rightarrow> child \<Rightarrow> child option \<Rightarrow> child list option" where
  "insertBefore w c ref =
     (case ref of
        None \<Rightarrow> Some (removeAll c w @ [c])
      | Some r \<Rightarrow>
          if r \<notin> set w then None
          else (case (if r = c then nextSibling w c else Some r) of
                  None \<Rightarrow> Some (removeAll c w @ [c])
                | Some r' \<Rightarrow> Some (insert_at (removeAll c w) c r')))"

text \<open>
  \<open>before\<close> is \<open>e.clientY < mid\<close>. An exception of \<open>insertBefore\<close> ends the listener with
  the DOM as it was.
\<close>

definition onDragOver :: "node option \<Rightarrow> bool \<Rightarrow> session \<Rightarrow> session" where
  "onDragOver target before s =
     (case target of
        None \<Rightarrow> s
      | Some t \<Rightarrow>
          (case dragged s of
             None \<Rightarrow> s
           | Some d \<Rightarrow>
               if t = d then s
               else if hidden_card (store s d) \<noteq> hidden_card (store s t) then s
               else (case insertBefore (wrapper s) (Card d)
                            (if before then Some (Card t) else nextSibling (wrapper s) (Card t)) of
                       None \<Rightarrow> s
                     | Some w \<Rightarrow> s\<lparr>wrapper := w\<rparr>)))"

section \<open>Messages from the popup\<close>

datatype message = GET_DASHBOARD_EDIT_STATE | TOGGLE_DASHBOARD_EDIT

text \<open>\<open>{ active?: boolean; hasDashboard?: boolean }\<close>\<close>

record response =
  hasDashboard :: "bool option"
  active :: "bool option"

fun onMessage :: "message \<Rightarrow> page \<Rightarrow> response \<times> page" where
  "onMessage GET_DASHBOARD_EDIT_STATE p =
     (case dashboardEditState p of
        None \<Rightarrow> (\<lparr>hasDashboard = Some False, active = Some False\<rparr>, p)
      | Some s \<Rightarrow> (\<lparr>hasDashboard = Some True, active = Some (edit_mode s)\<rparr>, p))"
| "onMessage TOGGLE_DASHBOARD_EDIT p =
     (case dashboardEditState p of
        None \<Rightarrow> (\<lparr>hasDashboard = None, active = Some False\<rparr>, p)
      | Some s \<Rightarrow>
          (let s' = s\<lparr>edit_mode := \<not> edit_mode s\<rparr>;
               p' = p\<lparr>dashboardEditState := Some s'\<rparr>;
               p'' = (if \<not> edit_mode s' then persistOrder s' p' else p')
           in (\<lparr>hasDashboard = None, active = Some (edit_mode s')\<rparr>, p'')))"

section \<open>Events\<close>

text \<open>
  The drag listeners sit on the frames; a frame that is not in the wrapper left the
  document when the dashboard was emptied and receives no event. \<open>DragOver\<close> carries the
  card that \<open>closest\<close> finds from the event target and whether the pointer is above its
  middle. \<open>onDrop\<close> is \<open>e.preventDefault(); persistOrder();\<close>. The click listeners of
  the hide button and of the width buttons are not part of this development.
\<close>

datatype event =
    DragStart node
  | DragEnd
  | DragOver "node option" bool
  | Drop
  | Message message

fun is_DragStart :: "event \<Rightarrow> bool" where
  "is_DragStart (DragStart c) = True"
| "is_DragStart e = False"

fun in_document :: "session \<Rightarrow> node option \<Rightarrow> bool" where
  "in_document s None = True"
| "in_document s (Some t) = (Card t \<in> set (wrapper s))"

fun step :: "event \<Rightarrow> page \<Rightarrow> page" where
  "step (Message m) p = snd (onMessage m p)"
| "step e p =
     (case dashboardEditState p of
        None \<Rightarrow> p
      | Some s \<Rightarrow>
          (case e of
             DragStart c \<Rightarrow>
               if Card c \<in> set (wrapper s) then p\<lparr>dashboardEditState := Some (onDragStart c s)\<rparr>
               else p
           | DragEnd \<Rightarrow> p\<lparr>dashboardEditState := Some (onDragEnd s)\<rparr>
           | DragOver target before \<Rightarrow>
               if in_document s target
               then p\<lparr>dashboardEditState := Some (onDragOver target before s)\<rparr>
               else p
           | Drop \<Rightarrow> persistOrder s p
           | Message m \<Rightarrow> p))"

fun run :: "event list \<Rightarrow> page \<Rightarrow> page" where
  "run [] p = p"
| "run (e # es) p = run es (step e p)"

section \<open>Notions the properties are stated with\<close>

text \<open>The ids of the discovered cards, in discovery order.\<close>

definition card_ids :: "frame list \<Rightarrow> jsstring list" where
  "card_ids usosFrames = map getFrameId (statsPanel # slotPanel # usosFrames)"

text \<open>The last node of a list whose element resolves to the given id, if there is one.\<close>

fun last_with :: "(node \<Rightarrow> element) \<Rightarrow> jsstring \<Rightarrow> node list \<Rightarrow> node option" where
  "last_with st ident [] = None"
| "last_with st ident (n # ns) =
     (case last_with st ident ns of
        Some m \<Rightarrow> Some m
      | None \<Rightarrow> if getFrameId (st n) = ident then Some n else None)"

text \<open>The dragging mark sits on no element but the dragged one.\<close>

definition marks_only_dragged :: "session \<Rightarrow> bool" where
  "marks_only_dragged s \<longleftrightarrow> (\<forall>n. dragging (store s n) \<longrightarrow> dragged s = Some n)"


text \<open>What a test observes of the drag session on a page.\<close>

definition dragged_card :: "page \<Rightarrow> node option" where
  "dragged_card p = (case dashboardEditState p of None \<Rightarrow> None | Some s \<Rightarrow> dragged s)"

definition is_hidden :: "page \<Rightarrow> node \<Rightarrow> bool" where
  "is_hidden p n = (case dashboardEditState p of None \<Rightarrow> False | Some s \<Rightarrow> hidden_card (store s n))"

definition is_marked :: "page \<Rightarrow> node \<Rightarrow> bool" where
  "is_marked p n = (case dashboardEditState p of None \<Rightarrow> False | Some s \<Rightarrow> dragging (store s n))"

section \<open>Example pages\<close>

text \<open>
  Three host frames with native ids, and a stored state that knows them in another
  order, names ids that are gone, hides one frame and holds one span that is not an
  option. The two panels of the extension are new to it.
\<close>

definition three_frames :: "frame list" where
  "three_frames =
     [\<lparr>el_id = js ''a'', title_href = None, title_text = []\<rparr>,
      \<lparr>el_id = js ''b'', title_href = None, title_text = []\<rparr>,
      \<lparr>el_id = js ''c'', title_href = None, title_text = []\<rparr>]"

definition stale_state :: DashboardState where
  "stale_state =
     \<lparr>order = [js ''c'', js ''a'', js ''gone'', js ''b''],
      hidden = [js ''a'', js ''old''],
      spans = Some [js ''a'' \<mapsto> 6, js ''c'' \<mapsto> 5]\<rparr>"

text \<open>Two host frames with neither an id nor a title link.\<close>

definition twin_frames :: "frame list" where
  "twin_frames =
     [\<lparr>el_id = [], title_href = None, title_text = js ''A''\<rparr>,
      \<lparr>el_id = [], title_href = None, title_text = js ''B''\<rparr>]"

text \<open>One host frame with the id \<open>__proto__\<close>, and a stored state that widens it.\<close>

definition proto_frame :: "frame list" where
  "proto_frame = [\<lparr>el_id = js ''__proto__'', title_href = None, title_text = []\<rparr>]"

definition proto_state :: DashboardState where
  "proto_state =
     \<lparr>order = [js ''__proto__''], hidden = [], spans = Some [js ''__proto__'' \<mapsto> 6]\<rparr>"

text \<open>One host frame, and a stored state that hides an id its order does not have.\<close>

definition plan_frame :: "frame list" where
  "plan_frame = [\<lparr>el_id = js ''plan'', title_href = None, title_text = []\<rparr>]"

definition slot_hidden_state :: DashboardState where
  "slot_hidden_state =
     \<lparr>order = [js ''plan''], hidden = [js ''bu-slot-frame''], spans = None\<rparr>"

text \<open>
  The page of that frame after \<open>setupDashboard\<close>: the statistics panel (node 0) and the
  frame (node 2) are visible, the slot panel (node 1) is hidden behind the divider.
\<close>

definition plan_page :: page where
  "plan_page =
     setupDashboard plan_frame
       \<lparr>dashboardEditState = None, dashboardCache = Some slot_hidden_state, storage_writes = []\<rparr>"

section \<open>Identity resolution\<close>

lemma hash_step_31: "hash_step h c = 31 * h + ucast c"
  by (simp add: hash_step_def push_bit_eq_mult)

lemma foldl_hash_step_of_nat:
  "foldl hash_step (of_nat a) href = of_nat (foldl (\<lambda>a c. 31 * a + unat c) a href)"
proof (induction href arbitrary: a)
  case Nil
  show ?case by simp
next
  case (Cons c cs)
  have "hash_step (of_nat a) c = of_nat (31 * a + unat c)"
    by (simp add: hash_step_31 of_nat_unat)
  then show ?case
    using Cons.IH [of "31 * a + unat c"] by simp
qed

lemma hash_is_poly31: "foldl hash_step 0 href = of_nat (poly31 href)"
  using foldl_hash_step_of_nat [of 0 href] by (simp add: poly31_def)

lemma digit36_alnum:
  "d < 36 \<Longrightarrow> digit36 d \<in> set (js ''0123456789abcdefghijklmnopqrstuvwxyz'')"
  unfolding digit36_def by (rule nth_mem) (simp add: js_def)

lemma toString36_alnum:
  "toString36 n \<noteq> [] \<and> set (toString36 n) \<subseteq> set (js ''0123456789abcdefghijklmnopqrstuvwxyz'')"
proof (induction n rule: toString36.induct)
  case (1 n)
  show ?case
  proof (cases "n < 36")
    case True
    then show ?thesis
      using digit36_alnum [of n] by (simp add: toString36.simps [of n])
  next
    case False
    have "digit36 (n mod 36) \<in> set (js ''0123456789abcdefghijklmnopqrstuvwxyz'')"
      by (rule digit36_alnum) simp
    with False "1.IH" show ?thesis
      by (simp add: toString36.simps [of n])
  qed
qed

text \<open>
  C5. An element with a native (non-empty) id resolves to that id unchanged. An element
  without one resolves to the prefix \<open>bu-\<close> followed by a non-empty token of the
  characters \<open>0-9a-z\<close>: the base-36 numeral of the absolute value of a 32-bit hash of
  the title link's \<open>href\<close>, where the hash is the polynomial in 31 of the code units
  reduced to 32 bits. The display text takes no part: two elements with the same native
  id, or both without one and with the same link target, resolve to the same id.
\<close>

theorem getFrameId_resolution:
  fixes e e' :: frame
  shows "(el_id e \<noteq> [] \<longrightarrow> getFrameId e = el_id e)
    \<and> (el_id e = [] \<longrightarrow>
         getFrameId e = js ''bu-'' @ toString36 (nat \<bar>sint (word_of_nat
           (poly31 (case title_href e of None \<Rightarrow> [] | Some h \<Rightarrow> h)) :: 32 word)\<bar>)
         \<and> (\<exists>tok. getFrameId e = js ''bu-'' @ tok \<and> tok \<noteq> []
               \<and> set tok \<subseteq> set (js ''0123456789abcdefghijklmnopqrstuvwxyz'')))
    \<and> (el_id e \<noteq> [] \<and> el_id e' = el_id e \<longrightarrow> getFrameId e' = getFrameId e)
    \<and> (el_id e = [] \<and> el_id e' = [] \<and> title_href e' = title_href e
         \<longrightarrow> getFrameId e' = getFrameId e)"
proof -
  have tok: "toString36 n \<noteq> [] \<and> set (toString36 n) \<subseteq> set (js ''0123456789abcdefghijklmnopqrstuvwxyz'')" for n
    by (rule toString36_alnum)
  show ?thesis
    using tok by (simp add: getFrameId_def hash_is_poly31 Let_def)
qed

theorem getFrameId_resolution_witness:
  "getFrameId \<lparr>el_id = js ''zajecia'', title_href = Some (js ''/kontroler.php''), title_text = js ''Plan''\<rparr>
     = js ''zajecia''
   \<and> getFrameId \<lparr>el_id = [], title_href = Some (js ''/kontroler.php''), title_text = js ''Timetable''\<rparr>
     = getFrameId \<lparr>el_id = [], title_href = Some (js ''/kontroler.php''), title_text = [80, 108, 97, 110, 32, 122, 97, 106, 281, 263]\<rparr>
   \<and> getFrameId \<lparr>el_id = [], title_href = Some (js ''/kontroler.php''), title_text = js ''Timetable''\<rparr>
     = js ''bu-hhd4el''"
proof -
  let ?a = "\<lparr>el_id = js ''zajecia'', title_href = Some (js ''/kontroler.php''), title_text = js ''Plan''\<rparr>"
  let ?b = "\<lparr>el_id = [], title_href = Some (js ''/kontroler.php''), title_text = [80, 108, 97, 110, 32, 122, 97, 106, 281, 263]\<rparr>"
  let ?c = "\<lparr>el_id = [], title_href = Some (js ''/kontroler.php''), title_text = js ''Timetable''\<rparr>"
  have 1: "getFrameId ?a = js ''zajecia''"
    using getFrameId_resolution [of ?a ?a] by (simp add: js_def)
  have 2: "getFrameId ?c = getFrameId ?b"
    using getFrameId_resolution [of ?b ?c] by simp
  have 3: "getFrameId ?c = js ''bu-hhd4el''"
    by (simp add: getFrameId_def js_def toString36.simps digit36_def hash_step_def)
  from 1 2 3 show ?thesis by simp
qed

section \<open>The registry and the merge\<close>

lemma getFrameId_nonempty: "getFrameId el \<noteq> []"
  by (simp add: getFrameId_def js_def Let_def)

lemma getFrameId_assigned: "getFrameId (el\<lparr>el_id := getFrameId el\<rparr>) = getFrameId el"
  using getFrameId_nonempty [of el] by (simp add: getFrameId_def)

lemma getFrameId_unmarked: "getFrameId (unmarked f) = getFrameId f"
  by (simp add: getFrameId_def unmarked_def)

lemma assign_ids_getFrameId:
  "getFrameId (reg_store (assign_ids frames r) n) = getFrameId (reg_store r n)"
proof (induction frames arbitrary: r)
  case Nil
  show ?case by simp
next
  case (Cons f fs)
  show ?case
    by (simp add: Cons.IH Let_def getFrameId_assigned)
qed

lemma assign_ids_defaultOrder:
  "defaultOrder (assign_ids frames r)
     = defaultOrder r @ map (\<lambda>f. getFrameId (reg_store r f)) frames"
proof (induction frames arbitrary: r)
  case Nil
  show ?case by simp
next
  case (Cons f fs)
  have "map (\<lambda>x. getFrameId (if x = f then reg_store r f\<lparr>el_id := getFrameId (reg_store r f)\<rparr> else reg_store r x)) fs
        = map (\<lambda>f. getFrameId (reg_store r f)) fs"
    by (rule map_cong) (simp_all add: getFrameId_assigned)
  then show ?case
    by (simp add: Cons.IH Let_def fun_upd_def)
qed

lemma last_with_cong:
  "(\<And>n. getFrameId (st' n) = getFrameId (st n)) \<Longrightarrow> last_with st' ident ns = last_with st ident ns"
  by (induction ns) simp_all

lemma assign_ids_idToFrame:
  "idToFrame (assign_ids frames r) ident
     = (case last_with (reg_store r) ident frames of
          Some m \<Rightarrow> Some m | None \<Rightarrow> idToFrame r ident)"
proof (induction frames arbitrary: r)
  case Nil
  show ?case by simp
next
  case (Cons f fs)
  define st where "st = (if el_id (reg_store r f) = []
      then (reg_store r)(f := (reg_store r f)\<lparr>el_id := getFrameId (reg_store r f)\<rparr>)
      else reg_store r)"
  define r' where "r' = \<lparr>reg_store = st,
      idToFrame = (idToFrame r)(getFrameId (reg_store r f) \<mapsto> f),
      defaultOrder = defaultOrder r @ [getFrameId (reg_store r f)]\<rparr>"
  have step: "assign_ids (f # fs) r = assign_ids fs r'"
    by (simp add: Let_def r'_def st_def)
  have gid: "getFrameId (st n) = getFrameId (reg_store r n)" for n
    by (simp add: st_def getFrameId_assigned)
  have lw: "last_with (reg_store r') ident fs = last_with (reg_store r) ident fs"
    using last_with_cong [of st "reg_store r" ident fs] gid by (simp add: r'_def)
  have "idToFrame (assign_ids fs r') ident
     = (case last_with (reg_store r) ident fs of
          Some m \<Rightarrow> Some m | None \<Rightarrow> idToFrame r' ident)"
    using Cons.IH [of r'] lw by simp
  then show ?case
    unfolding step by (simp add: r'_def split: option.splits)
qed

lemma last_with_None_iff:
  "last_with st ident ns = None \<longleftrightarrow> (\<forall>m \<in> set ns. getFrameId (st m) \<noteq> ident)"
  by (induction ns) (auto split: option.splits)

lemma discover_defaultOrder:
  "defaultOrder (discover st frames) = map (\<lambda>f. getFrameId (st f)) frames"
  by (simp add: discover_def assign_ids_defaultOrder)

lemma discover_has:
  "idToFrame (discover st frames) ident \<noteq> None \<longleftrightarrow> ident \<in> set (defaultOrder (discover st frames))"
proof -
  have "idToFrame (discover st frames) ident = last_with st ident frames"
    by (simp add: discover_def assign_ids_idToFrame split: option.splits)
  moreover have "last_with st ident frames \<noteq> None \<longleftrightarrow> ident \<in> set (map (\<lambda>f. getFrameId (st f)) frames)"
    by (auto simp: last_with_None_iff)
  ultimately show ?thesis
    by (simp add: discover_defaultOrder)
qed

lemma page_store_ids:
  "map (\<lambda>f. getFrameId (page_store frames f)) [0 ..< length frames] = map getFrameId frames"
  by (rule nth_equalityI) (simp_all add: page_store_def getFrameId_unmarked)

lemma dashboard_defaultOrder:
  "defaultOrder (dashboard_registry usosFrames) = card_ids usosFrames"
  using page_store_ids [of "statsPanel # slotPanel # usosFrames"]
  by (simp add: dashboard_registry_def Let_def discover_defaultOrder card_ids_def del: upt_Suc)

lemma dashboard_has:
  "idToFrame (dashboard_registry usosFrames) ident \<noteq> None \<longleftrightarrow> ident \<in> set (card_ids usosFrames)"
  using discover_has [of "page_store (statsPanel # slotPanel # usosFrames)" "[0 ..< length (statsPanel # slotPanel # usosFrames)]" ident]
    dashboard_defaultOrder [of usosFrames]
  by (simp add: dashboard_registry_def Let_def)

lemma add_new_ids_set: "set (add_new_ids ids ord) = set ids \<union> set ord"
  by (induction ids arbitrary: ord) auto

lemma add_new_ids_distinct: "distinct ord \<Longrightarrow> distinct (add_new_ids ids ord)"
  by (induction ids arbitrary: ord) auto

lemma add_new_ids_noop: "set ids \<subseteq> set ord \<Longrightarrow> add_new_ids ids ord = ord"
  by (induction ids arbitrary: ord) auto

lemma add_new_ids_decomp:
  "\<exists>news. add_new_ids ids ord = news @ ord \<and> set news \<subseteq> set ids
      \<and> set news \<inter> set ord = {} \<and> distinct news"
proof (induction ids arbitrary: ord)
  case Nil
  show ?case by simp
next
  case (Cons a ids)
  show ?case
  proof (cases "a \<in> set ord")
    case True
    from Cons.IH [of ord] obtain news where
      n: "add_new_ids ids ord = news @ ord" "set news \<subseteq> set ids" "set news \<inter> set ord = {}"
         "distinct news"
      by blast
    from True n(1) have "add_new_ids (a # ids) ord = news @ ord" by simp
    moreover from n(2) have "set news \<subseteq> set (a # ids)" by auto
    ultimately show ?thesis using n(3,4) by blast
  next
    case False
    from Cons.IH [of "a # ord"] obtain news where
      n: "add_new_ids ids (a # ord) = news @ a # ord" "set news \<subseteq> set ids"
         "set news \<inter> set (a # ord) = {}" "distinct news"
      by blast
    from False n(1) have "add_new_ids (a # ids) ord = (news @ [a]) @ ord" by simp
    moreover from n(2) have "set (news @ [a]) \<subseteq> set (a # ids)" by auto
    moreover from n(3) False have "set (news @ [a]) \<inter> set ord = {}" by auto
    moreover from n(3,4) have "distinct (news @ [a])" by auto
    ultimately show ?thesis by blast
  qed
qed

lemma dashboard_has_Some:
  "idToFrame (dashboard_registry usosFrames) ident = Some n \<Longrightarrow> ident \<in> set (card_ids usosFrames)"
  using dashboard_has [of usosFrames ident] by simp

lemma dashboard_has_ex:
  "ident \<in> set (card_ids usosFrames) \<Longrightarrow> \<exists>n. idToFrame (dashboard_registry usosFrames) ident = Some n"
  using dashboard_has [of usosFrames ident] by simp

lemma dashboard_has_iff:
  "(\<exists>n. idToFrame (dashboard_registry usosFrames) ident = Some n) \<longleftrightarrow> ident \<in> set (card_ids usosFrames)"
  using dashboard_has [of usosFrames ident] by simp

lemma dashboard_has_None:
  "idToFrame (dashboard_registry usosFrames) ident = None \<longleftrightarrow> ident \<notin> set (card_ids usosFrames)"
  using dashboard_has [of usosFrames ident] by blast

lemma stored_order_subset:
  "set (stored_order (dashboard_registry usosFrames) state) \<subseteq> set (card_ids usosFrames)"
  by (auto simp: stored_order_def dashboard_defaultOrder dest: dashboard_has_Some split: option.splits)

lemma dashboard_order_set:
  "set (dashboard_order (dashboard_registry usosFrames) state) = set (card_ids usosFrames)"
  using stored_order_subset [of usosFrames state]
  by (auto simp: dashboard_order_def add_new_ids_set dashboard_defaultOrder)

lemma dashboard_order_None:
  "dashboard_order (dashboard_registry usosFrames) None = card_ids usosFrames"
  by (simp add: dashboard_order_def stored_order_def add_new_ids_noop dashboard_defaultOrder)

lemma dashboard_order_distinct:
  "(case state of None \<Rightarrow> distinct (card_ids usosFrames) | Some s \<Rightarrow> distinct (order s))
   \<Longrightarrow> distinct (dashboard_order (dashboard_registry usosFrames) state)"
proof (cases state)
  case None
  assume "case state of None \<Rightarrow> distinct (card_ids usosFrames) | Some s \<Rightarrow> distinct (order s)"
  with None show ?thesis by (simp add: dashboard_order_None)
next
  case (Some s)
  assume "case state of None \<Rightarrow> distinct (card_ids usosFrames) | Some s \<Rightarrow> distinct (order s)"
  with Some show ?thesis
    by (simp add: dashboard_order_def stored_order_def add_new_ids_distinct)
qed

lemma partition_distinct:
  "distinct xs \<Longrightarrow> distinct (filter (\<lambda>x. \<not> P x) xs @ filter P xs)"
  by (induction xs) auto

lemma count_list_distinct: "distinct xs \<Longrightarrow> x \<in> set xs \<Longrightarrow> count_list xs x = 1"
  by (induction xs) auto

lemmas eval_ids = card_ids_def statsPanel_def slotPanel_def getFrameId_def js_def
  toString36.simps digit36_def hash_step_def
  three_frames_def stale_state_def twin_frames_def plan_frame_def slot_hidden_state_def
  proto_frame_def proto_state_def

lemmas eval_order = visibleOrder_def hiddenOrder_def hiddenSet_def dashboard_order_def
  stored_order_def dashboard_defaultOrder dashboard_has_iff dashboard_has_None

section \<open>Colliding ids\<close>

lemma last_with_snoc:
  "last_with st ident (ns @ [n])
     = (if getFrameId (st n) = ident then Some n else last_with st ident ns)"
  by (induction ns) (simp_all split: option.splits)

lemma last_with_upt:
  "last_with st ident [0 ..< N] = Some n \<longleftrightarrow>
     n < N \<and> getFrameId (st n) = ident
       \<and> (\<forall>m. n < m \<and> m < N \<longrightarrow> getFrameId (st m) \<noteq> ident)"
proof (induction N)
  case 0
  show ?case by simp
next
  case (Suc N)
  show ?case
  proof (cases "getFrameId (st N) = ident")
    case True
    have "n < Suc N \<and> getFrameId (st n) = ident
       \<and> (\<forall>m. n < m \<and> m < Suc N \<longrightarrow> getFrameId (st m) \<noteq> ident) \<longleftrightarrow> n = N"
    proof
      assume a: "n < Suc N \<and> getFrameId (st n) = ident
       \<and> (\<forall>m. n < m \<and> m < Suc N \<longrightarrow> getFrameId (st m) \<noteq> ident)"
      show "n = N"
      proof (rule ccontr)
        assume "n \<noteq> N"
        with a have "n < N" by simp
        with a have "getFrameId (st N) \<noteq> ident" by simp
        with True show False by simp
      qed
    next
      assume "n = N"
      with True show "n < Suc N \<and> getFrameId (st n) = ident
       \<and> (\<forall>m. n < m \<and> m < Suc N \<longrightarrow> getFrameId (st m) \<noteq> ident)"
        by auto
    qed
    with True show ?thesis
      by (auto simp: last_with_snoc)
  next
    case False
    have "(\<forall>m. n < m \<and> m < Suc N \<longrightarrow> getFrameId (st m) \<noteq> ident)
       \<longleftrightarrow> (\<forall>m. n < m \<and> m < N \<longrightarrow> getFrameId (st m) \<noteq> ident)"
      using False by (auto simp: less_Suc_eq)
    moreover have "n < Suc N \<and> getFrameId (st n) = ident \<longleftrightarrow> n < N \<and> getFrameId (st n) = ident"
      using False by (auto simp: less_Suc_eq)
    moreover have "last_with st ident [0 ..< Suc N] = last_with st ident [0 ..< N]"
      using False by (simp add: last_with_snoc)
    ultimately show ?thesis
      using Suc.IH by metis
  qed
qed

lemma dashboard_idToFrame:
  "idToFrame (dashboard_registry usosFrames) ident
     = last_with (page_store (statsPanel # slotPanel # usosFrames)) ident
         [0 ..< length (statsPanel # slotPanel # usosFrames)]"
  by (simp add: dashboard_registry_def Let_def discover_def assign_ids_idToFrame
      split: option.splits del: upt_Suc)

text \<open>
  C2, as amended. The registry maps every id of a discovered card to exactly one element.
  When several elements resolve to one id, the element kept is the last of them in
  discovery order: \<open>idToFrame.set\<close> overwrites. The id occurs at most once in the
  computed order when the stored state has an order without duplicates; with no stored
  state the computed order is the discovery order, which lists the id once for every
  element that resolves to it.
\<close>

theorem registry_last_wins:
  "(ident \<in> set (card_ids usosFrames)
      \<longleftrightarrow> (\<exists>n. idToFrame (dashboard_registry usosFrames) ident = Some n))
   \<and> (idToFrame (dashboard_registry usosFrames) ident = Some n
      \<longleftrightarrow> n < length (statsPanel # slotPanel # usosFrames)
          \<and> getFrameId ((statsPanel # slotPanel # usosFrames) ! n) = ident
          \<and> (\<forall>m. n < m \<and> m < length (statsPanel # slotPanel # usosFrames)
                \<longrightarrow> getFrameId ((statsPanel # slotPanel # usosFrames) ! m) \<noteq> ident))
   \<and> (\<forall>s. state = Some s \<and> distinct (order s)
          \<longrightarrow> count_list (dashboard_order (dashboard_registry usosFrames) state) ident \<le> 1)
   \<and> dashboard_order (dashboard_registry usosFrames) None = card_ids usosFrames"
proof -
  let ?fs = "statsPanel # slotPanel # usosFrames"
  have 1: "ident \<in> set (card_ids usosFrames)
      \<longleftrightarrow> (\<exists>n. idToFrame (dashboard_registry usosFrames) ident = Some n)"
    by (simp add: dashboard_has_iff)
  have g: "m < length ?fs \<Longrightarrow> getFrameId (page_store ?fs m) = getFrameId (?fs ! m)" for m
    by (simp add: page_store_def getFrameId_unmarked)
  have 2: "idToFrame (dashboard_registry usosFrames) ident = Some n
      \<longleftrightarrow> n < length ?fs \<and> getFrameId (?fs ! n) = ident
          \<and> (\<forall>m. n < m \<and> m < length ?fs \<longrightarrow> getFrameId (?fs ! m) \<noteq> ident)"
  proof -
    have "idToFrame (dashboard_registry usosFrames) ident = Some n
      \<longleftrightarrow> n < length ?fs \<and> getFrameId (page_store ?fs n) = ident
          \<and> (\<forall>m. n < m \<and> m < length ?fs \<longrightarrow> getFrameId (page_store ?fs m) \<noteq> ident)"
      by (simp only: dashboard_idToFrame last_with_upt)
    also have "\<dots> \<longleftrightarrow> n < length ?fs \<and> getFrameId (?fs ! n) = ident
          \<and> (\<forall>m. n < m \<and> m < length ?fs \<longrightarrow> getFrameId (?fs ! m) \<noteq> ident)"
      using g by (simp only: cong: conj_cong imp_cong)
    finally show ?thesis .
  qed
  have 3: "\<forall>s. state = Some s \<and> distinct (order s)
          \<longrightarrow> count_list (dashboard_order (dashboard_registry usosFrames) state) ident \<le> 1"
  proof (intro allI impI)
    fix s assume a: "state = Some s \<and> distinct (order s)"
    then have "distinct (dashboard_order (dashboard_registry usosFrames) state)"
      by (intro dashboard_order_distinct) simp
    then show "count_list (dashboard_order (dashboard_registry usosFrames) state) ident \<le> 1"
      by (cases "ident \<in> set (dashboard_order (dashboard_registry usosFrames) state)")
        (simp_all add: count_list_distinct)
  qed
  have 4: "dashboard_order (dashboard_registry usosFrames) None = card_ids usosFrames"
    by (rule dashboard_order_None)
  show ?thesis by (intro conjI 1 2 3 4)
qed

theorem registry_last_wins_witness:
  "js ''bu-0'' \<in> set (card_ids twin_frames)
   \<and> idToFrame (dashboard_registry twin_frames) (js ''bu-0'') = Some 3
   \<and> count_list (dashboard_order (dashboard_registry twin_frames) (Some stale_state)) (js ''bu-0'') \<le> 1"
proof -
  have d: "distinct (order stale_state)"
    by (simp add: stale_state_def js_def)
  have m: "js ''bu-0'' \<in> set (card_ids twin_frames)"
    by (simp add: eval_ids)
  have l1: "(3::nat) < length (statsPanel # slotPanel # twin_frames)
      \<and> getFrameId ((statsPanel # slotPanel # twin_frames) ! 3) = js ''bu-0''"
    by (simp add: eval_ids)
  have l2: "\<forall>m. 3 < m \<and> m < length (statsPanel # slotPanel # twin_frames)
                \<longrightarrow> getFrameId ((statsPanel # slotPanel # twin_frames) ! m) \<noteq> js ''bu-0''"
    by (auto simp: twin_frames_def)
  note l = conjI [OF l1 l2]
  from registry_last_wins [of "js ''bu-0''" twin_frames 3 "Some stale_state"] d m l
  show ?thesis by blast
qed

text \<open>
  The twin frames are nodes 2 and 3 and both resolve to \<open>bu-0\<close>. The registry keeps node 3,
  not the first-seen node 2, and with no stored state the order lists \<open>bu-0\<close> twice.
\<close>

theorem registry_last_wins_counterexample:
  "getFrameId ((statsPanel # slotPanel # twin_frames) ! 2) = js ''bu-0''
   \<and> getFrameId ((statsPanel # slotPanel # twin_frames) ! 3) = js ''bu-0''
   \<and> idToFrame (dashboard_registry twin_frames) (js ''bu-0'') = Some 3
   \<and> count_list (dashboard_order (dashboard_registry twin_frames) None) (js ''bu-0'') = 2"
proof -
  have a: "getFrameId ((statsPanel # slotPanel # twin_frames) ! 2) = js ''bu-0''"
    by (simp add: eval_ids)
  have b: "getFrameId ((statsPanel # slotPanel # twin_frames) ! 3) = js ''bu-0''"
    by (simp add: eval_ids)
  have c: "idToFrame (dashboard_registry twin_frames) (js ''bu-0'') = Some 3"
    by (simp add: dashboard_registry_def discover_def page_store_def unmarked_def Let_def upt_rec
        eval_ids)
  have d: "count_list (dashboard_order (dashboard_registry twin_frames) None) (js ''bu-0'') = 2"
    by (simp add: dashboard_order_None) (simp add: eval_ids)
  from a b c d show ?thesis by simp
qed

section \<open>Completeness of the merge\<close>

text \<open>
  C1, as amended. For every list of frames on the page and every stored state (none, one
  with stale ids, one whose hidden ids are not on the page), the visible and the hidden
  order share no id and together hold exactly the ids of the discovered cards. Each of
  these ids occurs exactly once across the two orders provided the order that the merge
  starts from has no duplicate: the stored order when there is a stored state, the
  discovery order (two elements may resolve to one id) when there is none.
\<close>

theorem reconcile_complete:
  "set (visibleOrder (dashboard_registry usosFrames) state)
       \<inter> set (hiddenOrder (dashboard_registry usosFrames) state) = {}
   \<and> set (visibleOrder (dashboard_registry usosFrames) state)
       \<union> set (hiddenOrder (dashboard_registry usosFrames) state) = set (card_ids usosFrames)
   \<and> ((case state of None \<Rightarrow> distinct (card_ids usosFrames) | Some s \<Rightarrow> distinct (order s))
        \<longrightarrow> (\<forall>ident \<in> set (card_ids usosFrames).
               count_list (visibleOrder (dashboard_registry usosFrames) state
                           @ hiddenOrder (dashboard_registry usosFrames) state) ident = 1))"
proof -
  let ?o = "dashboard_order (dashboard_registry usosFrames) state"
  let ?v = "visibleOrder (dashboard_registry usosFrames) state"
  let ?h = "hiddenOrder (dashboard_registry usosFrames) state"
  have 1: "set ?v \<inter> set ?h = {}"
    by (auto simp: visibleOrder_def hiddenOrder_def)
  have "set ?v \<union> set ?h = set ?o"
    by (auto simp: visibleOrder_def hiddenOrder_def)
  then have 2: "set ?v \<union> set ?h = set (card_ids usosFrames)"
    by (simp add: dashboard_order_set)
  have 3: "\<forall>ident \<in> set (card_ids usosFrames). count_list (?v @ ?h) ident = 1"
    if d: "case state of None \<Rightarrow> distinct (card_ids usosFrames) | Some s \<Rightarrow> distinct (order s)"
  proof
    fix ident assume "ident \<in> set (card_ids usosFrames)"
    with 2 have m: "ident \<in> set (?v @ ?h)" by simp
    have "distinct (?v @ ?h)"
      unfolding visibleOrder_def hiddenOrder_def
      using partition_distinct [OF dashboard_order_distinct [OF d], of "\<lambda>i. i \<in> hiddenSet state"]
      by simp
    with m show "count_list (?v @ ?h) ident = 1"
      by (rule count_list_distinct [rotated])
  qed
  from 1 2 3 show ?thesis by blast
qed



theorem reconcile_complete_witness:
  "distinct (order stale_state)
   \<and> js ''bu-slot-frame'' \<in> set (card_ids three_frames)
   \<and> count_list (visibleOrder (dashboard_registry three_frames) (Some stale_state)
                  @ hiddenOrder (dashboard_registry three_frames) (Some stale_state)) (js ''bu-slot-frame'') = 1
   \<and> visibleOrder (dashboard_registry three_frames) (Some stale_state)
        = [js ''bu-slot-frame'', js ''bu-stats-frame'', js ''c'', js ''b'']
   \<and> hiddenOrder (dashboard_registry three_frames) (Some stale_state) = [js ''a'']"
proof -
  have d: "distinct (order stale_state)" by (simp add: js_def stale_state_def)
  have m: "js ''bu-slot-frame'' \<in> set (card_ids three_frames)" by (simp add: eval_ids)
  have c: "count_list (visibleOrder (dashboard_registry three_frames) (Some stale_state)
                  @ hiddenOrder (dashboard_registry three_frames) (Some stale_state)) (js ''bu-slot-frame'') = 1"
    using reconcile_complete [of three_frames "Some stale_state"] d m by simp
  have v: "visibleOrder (dashboard_registry three_frames) (Some stale_state)
        = [js ''bu-slot-frame'', js ''bu-stats-frame'', js ''c'', js ''b'']"
    by (simp add: eval_order) (simp add: eval_ids)
  have h: "hiddenOrder (dashboard_registry three_frames) (Some stale_state) = [js ''a'']"
    by (simp add: eval_order) (simp add: eval_ids)
  from d m c v h show ?thesis by simp
qed

text \<open>
  Without the proviso the count fails: two frames with neither an id nor a title link both
  resolve to \<open>bu-0\<close>, and with no stored state that id is listed twice.
\<close>

theorem reconcile_complete_counterexample:
  "js ''bu-0'' \<in> set (card_ids twin_frames)
   \<and> count_list (visibleOrder (dashboard_registry twin_frames) None
                  @ hiddenOrder (dashboard_registry twin_frames) None) (js ''bu-0'') = 2"
  by (simp add: eval_order dashboard_order_None) (simp add: eval_ids)

section \<open>New cards\<close>

text \<open>
  C3, as amended. With a stored state, an id of a discovered card that is neither in the
  stored order nor among the stored hidden ids is in the visible order, exactly once, not
  in the hidden order, and no id of the stored order stands before it.
\<close>

theorem new_cards_surface:
  assumes "ident \<in> set (card_ids usosFrames)"
    and "ident \<notin> set (order s)"
    and "ident \<notin> set (hidden s)"
  shows "ident \<in> set (visibleOrder (dashboard_registry usosFrames) (Some s))
    \<and> ident \<notin> set (hiddenOrder (dashboard_registry usosFrames) (Some s))
    \<and> (\<exists>pre post. visibleOrder (dashboard_registry usosFrames) (Some s) = pre @ ident # post
          \<and> set pre \<inter> set (order s) = {} \<and> ident \<notin> set pre \<and> ident \<notin> set post)"
proof -
  let ?R = "dashboard_registry usosFrames"
  let ?o0 = "stored_order ?R (Some s)"
  let ?vis = "\<lambda>i. i \<notin> hiddenSet (Some s)"
  have o0: "?o0 = filter (\<lambda>i. idToFrame ?R i \<noteq> None) (order s)"
    by (simp add: stored_order_def)
  obtain news where n: "dashboard_order ?R (Some s) = news @ ?o0"
      "set news \<subseteq> set (card_ids usosFrames)" "set news \<inter> set ?o0 = {}" "distinct news"
    using add_new_ids_decomp [of "defaultOrder ?R" ?o0]
    by (auto simp: dashboard_order_def dashboard_defaultOrder)
  have notin_o0: "ident \<notin> set ?o0"
    using assms(2) by (simp add: o0)
  have "ident \<in> set (dashboard_order ?R (Some s))"
    using assms(1) by (simp add: dashboard_order_set)
  with n(1) notin_o0 have in_news: "ident \<in> set news" by simp
  have news_new: "set news \<inter> set (order s) = {}"
  proof (rule ccontr)
    assume "set news \<inter> set (order s) \<noteq> {}"
    then obtain x where x: "x \<in> set news" "x \<in> set (order s)" by blast
    from x(1) n(2) have "idToFrame ?R x \<noteq> None"
      using dashboard_has_ex [of x usosFrames] by auto
    with x(2) have "x \<in> set ?o0" by (simp add: o0)
    with x(1) n(3) show False by blast
  qed
  have vis_ident: "?vis ident"
    using assms(3) by (simp add: hiddenSet_def)
  with in_news have "ident \<in> set (filter ?vis news)" by simp
  then obtain pre post where sp: "filter ?vis news = pre @ ident # post"
    by (meson split_list)
  have "distinct (filter ?vis news)" using n(4) by simp
  with sp have once: "ident \<notin> set pre" "ident \<notin> set post" by auto
  have "set pre \<subseteq> set (filter ?vis news)" using sp by auto
  then have "set pre \<subseteq> set news" by auto
  with news_new have pre_new: "set pre \<inter> set (order s) = {}" by blast
  have post_o0: "ident \<notin> set (filter ?vis ?o0)" using notin_o0 by simp
  have v: "visibleOrder ?R (Some s) = pre @ ident # (post @ filter ?vis ?o0)"
    using sp by (simp add: visibleOrder_def n(1))
  have 1: "ident \<in> set (visibleOrder ?R (Some s))"
    unfolding v by simp
  have 2: "ident \<notin> set (hiddenOrder ?R (Some s))"
    using vis_ident by (simp add: hiddenOrder_def)
  have 3: "\<exists>pre post. visibleOrder ?R (Some s) = pre @ ident # post
          \<and> set pre \<inter> set (order s) = {} \<and> ident \<notin> set pre \<and> ident \<notin> set post"
    using v pre_new once post_o0
    by (intro exI [of _ pre] exI [of _ "post @ filter ?vis ?o0"]) simp
  from 1 2 3 show ?thesis by simp
qed

theorem new_cards_surface_witness:
  "js ''bu-slot-frame'' \<in> set (card_ids three_frames)
   \<and> js ''bu-slot-frame'' \<notin> set (order stale_state)
   \<and> js ''bu-slot-frame'' \<notin> set (hidden stale_state)
   \<and> js ''bu-slot-frame'' \<in> set (visibleOrder (dashboard_registry three_frames) (Some stale_state))
   \<and> js ''bu-slot-frame'' \<notin> set (hiddenOrder (dashboard_registry three_frames) (Some stale_state))
   \<and> (\<exists>pre post. visibleOrder (dashboard_registry three_frames) (Some stale_state)
                       = pre @ js ''bu-slot-frame'' # post
          \<and> set pre \<inter> set (order stale_state) = {}
          \<and> js ''bu-slot-frame'' \<notin> set pre \<and> js ''bu-slot-frame'' \<notin> set post)"
proof -
  have m: "js ''bu-slot-frame'' \<in> set (card_ids three_frames)" by (simp add: eval_ids)
  have o: "js ''bu-slot-frame'' \<notin> set (order stale_state)" by (simp add: js_def stale_state_def)
  have h: "js ''bu-slot-frame'' \<notin> set (hidden stale_state)" by (simp add: js_def stale_state_def)
  from m o h new_cards_surface [OF m o h] show ?thesis by simp
qed

text \<open>
  A new id that the stored state lists as hidden is hidden: the slot panel is on the page
  and not in the stored order, and it lands in the hidden order.
\<close>

theorem new_cards_surface_counterexample:
  "js ''bu-slot-frame'' \<in> set (card_ids plan_frame)
   \<and> js ''bu-slot-frame'' \<notin> set (order slot_hidden_state)
   \<and> visibleOrder (dashboard_registry plan_frame) (Some slot_hidden_state) = [js ''bu-stats-frame'', js ''plan'']
   \<and> hiddenOrder (dashboard_registry plan_frame) (Some slot_hidden_state) = [js ''bu-slot-frame'']"
  by (simp add: eval_order) (simp add: eval_ids)

section \<open>Idempotence of the merge\<close>





subsection \<open>What persistOrder reads back from the grid\<close>













lemma dashboard_node_id:
  assumes "idToFrame (dashboard_registry usosFrames) ident = Some n"
  shows "getFrameId (reg_store (dashboard_registry usosFrames) n) = ident"
proof -
  let ?fs = "statsPanel # slotPanel # usosFrames"
  from assms have "getFrameId (page_store ?fs n) = ident"
    by (simp only: dashboard_idToFrame last_with_upt)
  moreover have "getFrameId (reg_store (dashboard_registry usosFrames) n) = getFrameId (page_store ?fs n)"
    by (simp add: dashboard_registry_def discover_def Let_def assign_ids_getFrameId del: upt_Suc)
  ultimately show ?thesis by simp
qed


lemma place_visible_flags:
  "edit_mode (place_visible m sp ids s) = edit_mode s \<and> dragged (place_visible m sp ids s) = dragged s"
  by (induction ids arbitrary: s) (simp_all split: option.splits)

lemma place_hidden_flags:
  "edit_mode (place_hidden m sp ids s) = edit_mode s \<and> dragged (place_hidden m sp ids s) = dragged s"
  by (induction ids arbitrary: s) (simp_all split: option.splits)

lemma build_grid_edit_mode: "edit_mode (build_grid reg state) = False"
  by (simp add: build_grid_def Let_def place_visible_flags place_hidden_flags)

lemma build_grid_dragged: "dragged (build_grid reg state) = None"
  by (simp add: build_grid_def Let_def place_visible_flags place_hidden_flags)





lemma place_visible_store:
  assumes key: "\<forall>i k. m i = Some k \<longrightarrow> key k = i"
  shows "store (place_visible m sp ids s) n
     = (if key n \<in> set ids \<and> m (key n) = Some n
        then applySpan (getSpan sp (key n)) (store s n) else store s n)"
proof (induction ids arbitrary: s)
  case Nil
  show ?case by simp
next
  case (Cons a ids)
  show ?case
  proof (cases "m a")
    case None
    then have "(key n \<in> set (a # ids) \<and> m (key n) = Some n) \<longleftrightarrow> (key n \<in> set ids \<and> m (key n) = Some n)"
      by auto
    with None Cons.IH [of s] show ?thesis by simp
  next
    case (Some k)
    let ?s = "s\<lparr>store := (store s)(k := applySpan (getSpan sp a) (store s k)),
               wrapper := appendChild (wrapper s) (Card k)\<rparr>"
    from key Some have ka: "key k = a" by simp
    have step: "store (place_visible m sp (a # ids) s) n = store (place_visible m sp ids ?s) n"
      using Some by simp
    show ?thesis
    proof (cases "n = k")
      case True
      then show ?thesis
        unfolding step Cons.IH [of ?s] using ka Some by (simp add: applySpan_def)
    next
      case False
      have "m a \<noteq> Some n" using Some False by simp
      then have "(key n \<in> set (a # ids) \<and> m (key n) = Some n) \<longleftrightarrow> (key n \<in> set ids \<and> m (key n) = Some n)"
        by auto
      then show ?thesis
        unfolding step Cons.IH [of ?s] using False by simp
    qed
  qed
qed

lemma place_hidden_store:
  assumes key: "\<forall>i k. m i = Some k \<longrightarrow> key k = i"
  shows "store (place_hidden m sp ids s) n
     = (if key n \<in> set ids \<and> m (key n) = Some n
        then applySpan (getSpan sp (key n)) ((store s n)\<lparr>hidden_card := True\<rparr>) else store s n)"
proof (induction ids arbitrary: s)
  case Nil
  show ?case by simp
next
  case (Cons a ids)
  show ?case
  proof (cases "m a")
    case None
    then have "(key n \<in> set (a # ids) \<and> m (key n) = Some n) \<longleftrightarrow> (key n \<in> set ids \<and> m (key n) = Some n)"
      by auto
    with None Cons.IH [of s] show ?thesis by simp
  next
    case (Some k)
    let ?s = "s\<lparr>store := (store s)(k := applySpan (getSpan sp a) ((store s k)\<lparr>hidden_card := True\<rparr>)),
               wrapper := appendChild (wrapper s) (Card k)\<rparr>"
    from key Some have ka: "key k = a" by simp
    have step: "store (place_hidden m sp (a # ids) s) n = store (place_hidden m sp ids ?s) n"
      using Some by simp
    show ?thesis
    proof (cases "n = k")
      case True
      then show ?thesis
        unfolding step Cons.IH [of ?s] using ka Some by (simp add: applySpan_def)
    next
      case False
      have "m a \<noteq> Some n" using Some False by simp
      then have "(key n \<in> set (a # ids) \<and> m (key n) = Some n) \<longleftrightarrow> (key n \<in> set ids \<and> m (key n) = Some n)"
        by auto
      then show ?thesis
        unfolding step Cons.IH [of ?s] using False by simp
    qed
  qed
qed


lemma dashboard_key:
  "\<forall>i k. idToFrame (dashboard_registry usosFrames) i = Some k
     \<longrightarrow> getFrameId (reg_store (dashboard_registry usosFrames) k) = i"
  using dashboard_node_id by blast



lemma build_grid_store_gen:
  "store (build_grid (dashboard_registry usosFrames) state) n
     = (let R = dashboard_registry usosFrames; ident = getFrameId (reg_store R n) in
        if ident \<in> set (hiddenOrder R state) \<and> idToFrame R ident = Some n
        then applySpan (getSpan (stored_spans state) ident) ((reg_store R n)\<lparr>hidden_card := True\<rparr>)
        else if ident \<in> set (visibleOrder R state) \<and> idToFrame R ident = Some n
        then applySpan (getSpan (stored_spans state) ident) (reg_store R n)
        else reg_store R n)"
proof -
  let ?R = "dashboard_registry usosFrames"
  let ?m = "idToFrame ?R"
  let ?sp = "stored_spans state"
  let ?vis = "visibleOrder ?R state"
  let ?hid = "hiddenOrder ?R state"
  let ?key = "\<lambda>n. getFrameId (reg_store ?R n)"
  let ?s0 = "\<lparr>store = reg_store ?R, wrapper = [], edit_mode = False, dragged = None\<rparr>"
  let ?s1 = "place_visible ?m ?sp ?vis ?s0"
  let ?s1d = "?s1\<lparr>wrapper := appendChild (wrapper ?s1) Divider\<rparr>"
  have s1: "store ?s1 n = (if ?key n \<in> set ?vis \<and> ?m (?key n) = Some n
        then applySpan (getSpan ?sp (?key n)) (reg_store ?R n) else reg_store ?R n)"
    using place_visible_store [OF dashboard_key, where sp = ?sp and ids = ?vis and s = ?s0 and n = n] by simp
  have disj: "?key n \<in> set ?hid \<Longrightarrow> ?key n \<notin> set ?vis"
    by (auto simp: visibleOrder_def hiddenOrder_def)
  show ?thesis
  proof (cases "?hid = []")
    case True
    then show ?thesis
      using s1 by (simp add: build_grid_def Let_def)
  next
    case False
    have "store (place_hidden ?m ?sp ?hid ?s1d) n
        = (if ?key n \<in> set ?hid \<and> ?m (?key n) = Some n
           then applySpan (getSpan ?sp (?key n)) ((store ?s1 n)\<lparr>hidden_card := True\<rparr>)
           else store ?s1 n)"
      using place_hidden_store [OF dashboard_key, where sp = ?sp and ids = ?hid and s = ?s1d and n = n] by simp
    with False disj show ?thesis
      by (simp add: build_grid_def Let_def s1)
  qed
qed










lemma build_grid_buSpan:
  assumes "idToFrame (dashboard_registry usosFrames) ident = Some n"
  shows "buSpan (store (build_grid (dashboard_registry usosFrames) state) n)
       = Some (getSpan (stored_spans state) ident)"
proof -
  let ?R = "dashboard_registry usosFrames"
  have k: "getFrameId (reg_store ?R n) = ident"
    by (rule dashboard_node_id [OF assms])
  have "ident \<in> set (dashboard_order ?R state)"
    using dashboard_has_Some [OF assms] by (simp add: dashboard_order_set)
  then have "ident \<in> set (hiddenOrder ?R state) \<or> ident \<in> set (visibleOrder ?R state)"
    by (auto simp: visibleOrder_def hiddenOrder_def)
  then show ?thesis
    by (simp only: build_grid_store_gen Let_def k) (auto simp: assms applySpan_def)
qed

subsection \<open>Setting up again from the saved state\<close>




section \<open>Width classes\<close>

text \<open>
  C6. The width class of an id is the span the stored state holds for it when that span is
  one of the four options 2, 3, 4, 6 (1/3, 1/2, 2/3, full row). With no stored state, no
  stored spans, no stored span for the id, or a stored value that is not an option, the
  statistics panel's id resolves to 6 (full row) and every other id to 3 (half row). The
  resolved class is the span \<open>setupDashboard\<close> puts on the card of that id in the grid.
\<close>

theorem getSpan_resolution:
  "set SPAN_OPTIONS = {2, 3, 4, 6}
   \<and> (\<forall>st m s. state = Some st \<and> spans st = Some m \<and> m ident = Some s \<and> s \<in> set SPAN_OPTIONS
         \<longrightarrow> getSpan (stored_spans state) ident = s)
   \<and> (state = None
        \<or> (\<exists>st. state = Some st
              \<and> (spans st = None
                  \<or> (\<exists>m. spans st = Some m
                        \<and> (m ident = None \<or> (\<exists>s. m ident = Some s \<and> s \<notin> set SPAN_OPTIONS)))))
        \<longrightarrow> getSpan (stored_spans state) ident = (if ident = js ''bu-stats-frame'' then 6 else 3))
   \<and> (\<forall>n. idToFrame (dashboard_registry usosFrames) ident = Some n
         \<longrightarrow> buSpan (store (build_grid (dashboard_registry usosFrames) state) n)
               = Some (getSpan (stored_spans state) ident))"
proof -
  have 1: "set SPAN_OPTIONS = {2, 3, 4, 6}"
    by (simp add: SPAN_OPTIONS_def)
  have 2: "\<forall>st m s. state = Some st \<and> spans st = Some m \<and> m ident = Some s \<and> s \<in> set SPAN_OPTIONS
         \<longrightarrow> getSpan (stored_spans state) ident = s"
    by (auto simp: getSpan_def stored_spans_def SPAN_OPTIONS_def)
  have 3: "state = None
        \<or> (\<exists>st. state = Some st
              \<and> (spans st = None
                  \<or> (\<exists>m. spans st = Some m
                        \<and> (m ident = None \<or> (\<exists>s. m ident = Some s \<and> s \<notin> set SPAN_OPTIONS)))))
        \<longrightarrow> getSpan (stored_spans state) ident = (if ident = js ''bu-stats-frame'' then 6 else 3)"
    by (auto simp: getSpan_def stored_spans_def)
  have 4: "\<forall>n. idToFrame (dashboard_registry usosFrames) ident = Some n
         \<longrightarrow> buSpan (store (build_grid (dashboard_registry usosFrames) state) n)
               = Some (getSpan (stored_spans state) ident)"
    using build_grid_buSpan by blast
  show ?thesis by (intro conjI 1 2 3 4)
qed

theorem getSpan_resolution_witness:
  "getSpan (stored_spans (Some stale_state)) (js ''a'') = 6
   \<and> getSpan (stored_spans (Some stale_state)) (js ''c'') = 3
   \<and> getSpan (stored_spans (Some stale_state)) (js ''bu-stats-frame'') = 6
   \<and> getSpan (stored_spans None) (js ''bu-slot-frame'') = 3
   \<and> idToFrame (dashboard_registry three_frames) (js ''a'') = Some 2
   \<and> buSpan (store (build_grid (dashboard_registry three_frames) (Some stale_state)) 2) = Some 6"
proof -
  have sp: "spans stale_state = Some [js ''a'' \<mapsto> 6, js ''c'' \<mapsto> 5]"
    by (simp add: stale_state_def)
  have a: "getSpan (stored_spans (Some stale_state)) (js ''a'') = 6"
    using getSpan_resolution [of "Some stale_state" "js ''a''" three_frames,
        THEN conjunct2, THEN conjunct1, rule_format,
        of stale_state "[js ''a'' \<mapsto> 6, js ''c'' \<mapsto> 5]" 6] sp
    by (simp add: js_def SPAN_OPTIONS_def)
  have "\<exists>s. [js ''a'' \<mapsto> 6::int, js ''c'' \<mapsto> 5] (js ''c'') = Some s \<and> s \<notin> set SPAN_OPTIONS"
    by (simp add: js_def SPAN_OPTIONS_def)
  with sp have c: "getSpan (stored_spans (Some stale_state)) (js ''c'') = 3"
    using getSpan_resolution [of "Some stale_state" "js ''c''" three_frames,
        THEN conjunct2, THEN conjunct2, THEN conjunct1]
    by (simp add: js_def)
  have s: "getSpan (stored_spans (Some stale_state)) (js ''bu-stats-frame'') = 6"
    using getSpan_resolution [of "Some stale_state" "js ''bu-stats-frame''" three_frames,
        THEN conjunct2, THEN conjunct2, THEN conjunct1] sp
    by (simp add: js_def)
  have l: "getSpan (stored_spans None) (js ''bu-slot-frame'') = 3"
    using getSpan_resolution [of None "js ''bu-slot-frame''" three_frames,
        THEN conjunct2, THEN conjunct2, THEN conjunct1]
    by (simp add: js_def)
  have n: "idToFrame (dashboard_registry three_frames) (js ''a'') = Some 2"
    by (simp add: dashboard_registry_def discover_def page_store_def unmarked_def Let_def upt_rec
        eval_ids)
  have "buSpan (store (build_grid (dashboard_registry three_frames) (Some stale_state)) 2)
      = Some (getSpan (stored_spans (Some stale_state)) (js ''a''))"
    using getSpan_resolution [of "Some stale_state" "js ''a''" three_frames,
        THEN conjunct2, THEN conjunct2, THEN conjunct2, rule_format, OF n] .
  then have g: "buSpan (store (build_grid (dashboard_registry three_frames) (Some stale_state)) 2) = Some 6"
    by (simp only: a)
  show ?thesis by (intro conjI a c s l n g)
qed

section \<open>The example page\<close>

lemmas eval_grid = build_grid_def visibleOrder_def hiddenOrder_def hiddenSet_def dashboard_order_def
  stored_order_def appendChild_def stored_spans_def applySpan_def getSpan_def SPAN_OPTIONS_def
  dashboard_registry_def discover_def page_store_def unmarked_def Let_def upt_rec
  statsPanel_def slotPanel_def getFrameId_def js_def
  plan_frame_def slot_hidden_state_def


lemma plan_wrapper:
  "wrapper (build_grid (dashboard_registry plan_frame) (Some slot_hidden_state)) = [Card 0, Card 2, Divider, Card 1]"
  by (simp add: eval_grid)

lemma plan_hidden:
  "hidden_card (store (build_grid (dashboard_registry plan_frame) (Some slot_hidden_state)) 1)
   \<and> \<not> hidden_card (store (build_grid (dashboard_registry plan_frame) (Some slot_hidden_state)) 2)"
  by (simp add: eval_grid)


section \<open>The edit-mode messages\<close>




text \<open>
  C10. On a page where \<open>setupDashboard\<close> has not built a grid (it returns early when the
  dashboard has no \<open>usos-frame\<close>), \<open>TOGGLE_DASHBOARD_EDIT\<close> answers \<open>{active: false}\<close> and
  changes nothing: no class is flipped and nothing is written, and
  \<open>GET_DASHBOARD_EDIT_STATE\<close> afterwards still answers
  \<open>{hasDashboard: false, active: false}\<close>.
\<close>

theorem toggle_before_setup:
  assumes "dashboardEditState p = None"
  shows "onMessage TOGGLE_DASHBOARD_EDIT p = (\<lparr>hasDashboard = None, active = Some False\<rparr>, p)
    \<and> onMessage GET_DASHBOARD_EDIT_STATE (snd (onMessage TOGGLE_DASHBOARD_EDIT p))
         = (\<lparr>hasDashboard = Some False, active = Some False\<rparr>, p)
    \<and> dashboardEditState (setupDashboard [] p) = None"
  using assms by (simp add: setupDashboard_def)

theorem toggle_before_setup_witness:
  "onMessage TOGGLE_DASHBOARD_EDIT
      \<lparr>dashboardEditState = None, dashboardCache = Some stale_state, storage_writes = []\<rparr>
     = (\<lparr>hasDashboard = None, active = Some False\<rparr>,
        \<lparr>dashboardEditState = None, dashboardCache = Some stale_state, storage_writes = []\<rparr>)"
  using toggle_before_setup
    [of "\<lparr>dashboardEditState = None, dashboardCache = Some stale_state, storage_writes = []\<rparr>"]
  by simp


section \<open>Dragging across the divider\<close>

lemma plan_page_eq:
  "plan_page = \<lparr>dashboardEditState = Some (build_grid (dashboard_registry plan_frame) (Some slot_hidden_state)),
      dashboardCache = Some slot_hidden_state, storage_writes = []\<rparr>"
  by (simp add: plan_page_def setupDashboard_def plan_frame_def)

lemma plan_hidden_1:
  "hidden_card (store (build_grid (dashboard_registry plan_frame) (Some slot_hidden_state)) (Suc 0))"
  using plan_hidden by simp

lemma plan_hidden_2:
  "\<not> hidden_card (store (build_grid (dashboard_registry plan_frame) (Some slot_hidden_state)) 2)"
  using plan_hidden by simp

lemma onDragOver_store: "store (onDragOver target before s) = store s"
  by (simp add: onDragOver_def split: option.splits)

lemma onDragOver_dragged: "dragged (onDragOver target before s) = dragged s"
  by (simp add: onDragOver_def split: option.splits)

text \<open>
  C8, as amended. While a card is dragged, a drag-over whose target is in the other
  partition (one of the two cards carries \<open>bu-hidden-card\<close>, the other does not) leaves
  the page as it is. No drag-over writes to storage or touches the cache, and none changes
  whether a card is hidden. A drop on a card calls \<open>persistOrder\<close> once, whatever the card
  was dragged over: one write of the layout as it stands, with the DOM unchanged.
\<close>

theorem cross_partition_guard:
  assumes "dashboardEditState p = Some s"
  shows "(dragged s = Some d \<and> hidden_card (store s d) \<noteq> hidden_card (store s t)
            \<longrightarrow> step (DragOver (Some t) before) p = p)
    \<and> storage_writes (step (DragOver target before) p) = storage_writes p
    \<and> dashboardCache (step (DragOver target before) p) = dashboardCache p
    \<and> (\<forall>n. is_hidden (step (DragOver target before) p) n = is_hidden p n)
    \<and> step Drop p
         = p\<lparr>dashboardCache := Some (snapshot s), storage_writes := storage_writes p @ [snapshot s]\<rparr>"
proof -
  have 1: "step (DragOver (Some t) before) p = p"
    if "dragged s = Some d" "hidden_card (store s d) \<noteq> hidden_card (store s t)"
    using assms that by (simp add: onDragOver_def)
  have st: "store (onDragOver target before s) = store s"
    by (rule onDragOver_store)
  have 2: "storage_writes (step (DragOver target before) p) = storage_writes p"
    using assms by simp
  have 3: "dashboardCache (step (DragOver target before) p) = dashboardCache p"
    using assms by simp
  have 4: "\<forall>n. is_hidden (step (DragOver target before) p) n = is_hidden p n"
    using assms st by (simp add: is_hidden_def)
  have 5: "step Drop p
         = p\<lparr>dashboardCache := Some (snapshot s), storage_writes := storage_writes p @ [snapshot s]\<rparr>"
    using assms by (simp add: persistOrder_def saveDashboardState_def)
  from 1 2 3 4 5 show ?thesis by blast
qed

lemma plan_drag_started:
  "run [Message TOGGLE_DASHBOARD_EDIT, DragStart 2] plan_page
     = \<lparr>dashboardEditState = Some (onDragStart 2
          ((build_grid (dashboard_registry plan_frame) (Some slot_hidden_state))\<lparr>edit_mode := True\<rparr>)),
        dashboardCache = Some slot_hidden_state, storage_writes = []\<rparr>"
  by (simp add: plan_page_eq Let_def build_grid_edit_mode plan_wrapper)

text \<open>
  The drop does persist. On the example page in edit mode the visible frame (node 2) is
  dragged over the hidden slot panel (node 1) and dropped there: the drag-over changes
  nothing and writes nothing, and the drop makes one write.
\<close>

theorem cross_partition_guard_counterexample:
  "dragged_card (run [Message TOGGLE_DASHBOARD_EDIT, DragStart 2] plan_page) = Some 2
   \<and> \<not> is_hidden (run [Message TOGGLE_DASHBOARD_EDIT, DragStart 2] plan_page) 2
   \<and> is_hidden (run [Message TOGGLE_DASHBOARD_EDIT, DragStart 2] plan_page) 1
   \<and> run [Message TOGGLE_DASHBOARD_EDIT, DragStart 2, DragOver (Some 1) True] plan_page
       = run [Message TOGGLE_DASHBOARD_EDIT, DragStart 2] plan_page
   \<and> storage_writes (run [Message TOGGLE_DASHBOARD_EDIT, DragStart 2, DragOver (Some 1) True] plan_page) = []
   \<and> length (storage_writes
         (run [Message TOGGLE_DASHBOARD_EDIT, DragStart 2, DragOver (Some 1) True, Drop] plan_page)) = 1"
proof -
  let ?s0 = "build_grid (dashboard_registry plan_frame) (Some slot_hidden_state)"
  let ?p2 = "run [Message TOGGLE_DASHBOARD_EDIT, DragStart 2] plan_page"
  have s2: "onDragStart 2 (?s0\<lparr>edit_mode := True\<rparr>)
      = ?s0\<lparr>edit_mode := True, dragged := Some 2,
             store := (store ?s0)(2 := (store ?s0 2)\<lparr>dragging := True\<rparr>)\<rparr>"
    by (simp add: onDragStart_def)
  have a: "dragged_card ?p2 = Some 2"
    unfolding plan_drag_started s2 by (simp add: dragged_card_def)
  have b: "\<not> is_hidden ?p2 2"
    unfolding plan_drag_started s2 by (simp add: is_hidden_def plan_hidden_2)
  have c: "is_hidden ?p2 1"
    unfolding plan_drag_started s2 by (simp add: is_hidden_def plan_hidden_1)
  have split3: "run [Message TOGGLE_DASHBOARD_EDIT, DragStart 2, DragOver (Some 1) True] plan_page
      = step (DragOver (Some 1) True) ?p2"
    by simp
  have d: "step (DragOver (Some 1) True) ?p2 = ?p2"
    unfolding plan_drag_started s2 by (simp add: plan_wrapper onDragOver_def plan_hidden_1 plan_hidden_2)
  have e: "storage_writes ?p2 = []"
    unfolding plan_drag_started by simp
  have split4: "run [Message TOGGLE_DASHBOARD_EDIT, DragStart 2, DragOver (Some 1) True, Drop] plan_page
      = step Drop (step (DragOver (Some 1) True) ?p2)"
    by simp
  have f: "length (storage_writes (step Drop ?p2)) = 1"
    unfolding plan_drag_started by (simp add: persistOrder_def saveDashboardState_def)
  from a b c d e f show ?thesis
    unfolding split3 split4 by simp
qed


theorem cross_partition_guard_witness:
  "step (DragOver (Some 1) False) (run [Message TOGGLE_DASHBOARD_EDIT, DragStart 2] plan_page)
     = run [Message TOGGLE_DASHBOARD_EDIT, DragStart 2] plan_page"
proof -
  let ?s0 = "build_grid (dashboard_registry plan_frame) (Some slot_hidden_state)"
  let ?s2 = "onDragStart 2 (?s0\<lparr>edit_mode := True\<rparr>)"
  let ?p2 = "run [Message TOGGLE_DASHBOARD_EDIT, DragStart 2] plan_page"
  have s: "dashboardEditState ?p2 = Some ?s2"
    unfolding plan_drag_started by simp
  have d: "dragged ?s2 = Some 2"
    by (simp add: onDragStart_def)
  have h: "hidden_card (store ?s2 2) \<noteq> hidden_card (store ?s2 1)"
    by (simp add: onDragStart_def plan_hidden_1 plan_hidden_2)
  from cross_partition_guard [OF s, of 2 1 False] d h show ?thesis
    by blast
qed

section \<open>The end of a drag\<close>

lemma run_append: "run (xs @ ys) p = run ys (run xs p)"
  by (induction xs arbitrary: p) simp_all

lemma step_keeps_session:
  "dashboardEditState p = Some s \<Longrightarrow> \<exists>s'. dashboardEditState (step e p) = Some s'"
proof (cases e)
  case (Message m)
  assume "dashboardEditState p = Some s"
  with Message show ?thesis
    by (cases m) (simp_all add: Let_def persistOrder_def saveDashboardState_def)
qed (simp_all add: persistOrder_def saveDashboardState_def)

lemma onDragEnd_clears:
  "marks_only_dragged s \<Longrightarrow> dragged (onDragEnd s) = None \<and> (\<forall>n. \<not> dragging (store (onDragEnd s) n))"
  by (auto simp: marks_only_dragged_def onDragEnd_def split: option.splits)

lemma onDragOver_marks:
  "marks_only_dragged s \<Longrightarrow> marks_only_dragged (onDragOver target before s)"
  by (simp add: marks_only_dragged_def onDragOver_store onDragOver_dragged)

lemma step_keeps_marks:
  assumes "dashboardEditState p = Some s" and "marks_only_dragged s" and "\<not> is_DragStart e"
    and "dashboardEditState (step e p) = Some s'"
  shows "marks_only_dragged s'"
proof (cases e)
  case (DragStart c)
  with assms(3) show ?thesis by simp
next
  case DragEnd
  with assms(1,4) have "s' = onDragEnd s" by simp
  with onDragEnd_clears [OF assms(2)] show ?thesis
    by (simp add: marks_only_dragged_def)
next
  case (DragOver target before)
  with assms(1,4) have "s' = onDragOver target before s \<or> s' = s"
    by (simp split: if_splits)
  with assms(2) onDragOver_marks [OF assms(2)] show ?thesis by blast
next
  case Drop
  with assms(1,4) have "s' = s"
    by (simp add: persistOrder_def saveDashboardState_def)
  with assms(2) show ?thesis by simp
next
  case (Message m)
  with assms(1,4) have "s' = s \<or> s' = s\<lparr>edit_mode := \<not> edit_mode s\<rparr>"
    by (cases m) (auto simp: Let_def persistOrder_def saveDashboardState_def split: if_splits)
  with assms(2) show ?thesis
    by (auto simp: marks_only_dragged_def)
qed

lemma run_keeps_marks:
  "dashboardEditState p = Some s \<Longrightarrow> marks_only_dragged s \<Longrightarrow> \<forall>e \<in> set evs. \<not> is_DragStart e
   \<Longrightarrow> \<exists>s'. dashboardEditState (run evs p) = Some s' \<and> marks_only_dragged s'"
proof (induction evs arbitrary: p s)
  case Nil
  then show ?case by simp
next
  case (Cons e evs)
  from step_keeps_session [OF Cons.prems(1)] obtain s1 where
    s1: "dashboardEditState (step e p) = Some s1" by blast
  from Cons.prems have ne: "\<not> is_DragStart e" by simp
  have "marks_only_dragged s1"
    using Cons.prems(1,2) ne s1 by (rule step_keeps_marks)
  moreover from Cons.prems(3) have "\<forall>e \<in> set evs. \<not> is_DragStart e" by simp
  ultimately show ?case
    using Cons.IH [OF s1] by simp
qed

lemma onDragStart_marks:
  "dragged s = None \<Longrightarrow> \<forall>n. \<not> dragging (store s n) \<Longrightarrow> marks_only_dragged (onDragStart c s)"
  by (simp add: marks_only_dragged_def onDragStart_def)

text \<open>
  C9. From a page at rest (no card dragged, no element marked \<open>bu-dragging\<close>), after a
  drag-start on any card, any events other than a second drag-start (drag-overs, with or
  without a drop, messages), and a drag-end, no card is dragged and no element is marked.
  \<open>onDragEnd\<close> has no guard: from any session whatever it resets \<open>dragged\<close> and unmarks
  the card that was dragged. A drag-start outside edit mode leaves the page as it is; in
  edit mode it records the card and marks it.
\<close>

theorem drag_cleanup:
  assumes "dashboardEditState p = Some s"
    and "dragged s = None"
    and "\<forall>n. \<not> dragging (store s n)"
    and "\<forall>e \<in> set evs. \<not> is_DragStart e"
  shows "dashboardEditState (run (DragStart c # evs @ [DragEnd]) p) \<noteq> None
    \<and> dragged_card (run (DragStart c # evs @ [DragEnd]) p) = None
    \<and> (\<forall>n. \<not> is_marked (run (DragStart c # evs @ [DragEnd]) p) n)
    \<and> (\<not> edit_mode s \<longrightarrow> step (DragStart c) p = p)
    \<and> (edit_mode s \<and> Card c \<in> set (wrapper s)
         \<longrightarrow> dragged_card (step (DragStart c) p) = Some c \<and> is_marked (step (DragStart c) p) c)
    \<and> dragged (onDragEnd s0) = None
    \<and> (\<forall>d. dragged s0 = Some d \<longrightarrow> \<not> dragging (store (onDragEnd s0) d))"
proof -
  let ?p1 = "step (DragStart c) p"
  have idle: "marks_only_dragged s"
    using assms(3) by (simp add: marks_only_dragged_def)
  obtain s1 where s1: "dashboardEditState ?p1 = Some s1" and m1: "marks_only_dragged s1"
  proof (cases "Card c \<in> set (wrapper s)")
    case True
    with assms(1) have "dashboardEditState ?p1 = Some (onDragStart c s)" by simp
    with onDragStart_marks [OF assms(2,3)] that show ?thesis by blast
  next
    case False
    with assms(1) have "dashboardEditState ?p1 = Some s" by simp
    with idle that show ?thesis by blast
  qed
  from run_keeps_marks [OF s1 m1 assms(4)] obtain s2 where
    s2: "dashboardEditState (run evs ?p1) = Some s2" and m2: "marks_only_dragged s2"
    by blast
  have r: "run (DragStart c # evs @ [DragEnd]) p = step DragEnd (run evs ?p1)"
    by (simp add: run_append)
  have e: "dashboardEditState (step DragEnd (run evs ?p1)) = Some (onDragEnd s2)"
    using s2 by simp
  have 1: "dashboardEditState (run (DragStart c # evs @ [DragEnd]) p) \<noteq> None"
    unfolding r e by simp
  have 2: "dragged_card (run (DragStart c # evs @ [DragEnd]) p) = None"
    unfolding r dragged_card_def e using onDragEnd_clears [OF m2] by simp
  have 3: "\<forall>n. \<not> is_marked (run (DragStart c # evs @ [DragEnd]) p) n"
    unfolding r is_marked_def e using onDragEnd_clears [OF m2] by simp
  have 4: "\<not> edit_mode s \<longrightarrow> step (DragStart c) p = p"
    using assms(1) by (simp add: onDragStart_def)
  have 5: "edit_mode s \<and> Card c \<in> set (wrapper s)
         \<longrightarrow> dragged_card (step (DragStart c) p) = Some c \<and> is_marked (step (DragStart c) p) c"
    using assms(1) by (simp add: onDragStart_def dragged_card_def is_marked_def)
  have 6: "dragged (onDragEnd s0) = None"
    by (simp add: onDragEnd_def split: option.splits)
  have 7: "\<forall>d. dragged s0 = Some d \<longrightarrow> \<not> dragging (store (onDragEnd s0) d)"
    by (simp add: onDragEnd_def)
  from 1 2 3 4 5 6 7 show ?thesis by blast
qed


lemma assign_ids_dragging:
  "dragging (reg_store (assign_ids frames r) n) = dragging (reg_store r n)"
  by (induction frames arbitrary: r) (simp_all add: Let_def)

lemma place_visible_dragging:
  "dragging (store (place_visible m sp ids s) n) = dragging (store s n)"
  by (induction ids arbitrary: s) (simp_all add: applySpan_def split: option.splits)

lemma place_hidden_dragging:
  "dragging (store (place_hidden m sp ids s) n) = dragging (store s n)"
  by (induction ids arbitrary: s) (simp_all add: applySpan_def split: option.splits)

lemma build_grid_unmarked:
  "\<not> dragging (store (build_grid (dashboard_registry usosFrames) state) n)"
  by (simp add: build_grid_def Let_def place_visible_dragging place_hidden_dragging
      dashboard_registry_def discover_def assign_ids_dragging page_store_def unmarked_def)

theorem drag_cleanup_witness:
  "dragged_card (run (DragStart 2 # [DragOver (Some 0) True, Drop] @ [DragEnd])
       (step (Message TOGGLE_DASHBOARD_EDIT) plan_page)) = None
   \<and> \<not> is_marked (run (DragStart 2 # [DragOver (Some 0) True, Drop] @ [DragEnd])
       (step (Message TOGGLE_DASHBOARD_EDIT) plan_page)) 2
   \<and> is_marked (step (DragStart 2) (step (Message TOGGLE_DASHBOARD_EDIT) plan_page)) 2"
proof -
  let ?s0 = "build_grid (dashboard_registry plan_frame) (Some slot_hidden_state)"
  let ?s1 = "?s0\<lparr>edit_mode := True\<rparr>"
  let ?p1 = "step (Message TOGGLE_DASHBOARD_EDIT) plan_page"
  have s: "dashboardEditState ?p1 = Some ?s1"
    by (simp add: plan_page_eq Let_def build_grid_edit_mode)
  have d: "dragged ?s1 = None"
    by (simp add: build_grid_dragged)
  have m: "\<forall>n. \<not> dragging (store ?s1 n)"
    by (simp add: build_grid_unmarked)
  have e: "\<forall>e \<in> set [DragOver (Some 0) True, Drop]. \<not> is_DragStart e"
    by simp
  have g: "edit_mode ?s1 \<and> Card 2 \<in> set (wrapper ?s1)"
    by (simp add: plan_wrapper)
  from drag_cleanup [OF s d m e, of 2] g show ?thesis
    by blast
qed

end
